theory Spec2Isabelle
  imports Complex_Main
begin

section \<open>Data model of the training-step coordinator\<close>

text \<open>
  The development embeds \<open>NumpyTrainer\<close> of \<open>mnist-convnet.py\<close>: \<open>_setup_graph\<close>,
  \<open>_get_values\<close>, \<open>_set_values\<close> and \<open>run_step\<close>, together with the module global
  \<open>step_count\<close>.

  A value the session returns for a variable or a gradient is either a numpy scalar (the
  tensor has no axis) or an array; an array is modelled with one axis, as the list of its
  elements, its shape being its length.  The two are kept apart because an array is changed
  in place by \<open>-=\<close> and a numpy scalar is not.

  The element arithmetic of numpy is a parameter of the model: the elements are of any
  type, and the product with a Python float, the sum and the difference are the functions
  of an \<open>arith\<close> record, about which nothing is assumed.  Rounding, infinities and NaN
  are therefore whatever those functions make them.
\<close>

datatype 'f tensor = Scalar 'f | Array "'f list"

record 'f arith =
  f_zero :: 'f
  f_mul :: "'f \<Rightarrow> real \<Rightarrow> 'f"
  f_rmul :: "real \<Rightarrow> 'f \<Rightarrow> 'f"
  f_add :: "'f \<Rightarrow> 'f \<Rightarrow> 'f"
  f_sub :: "'f \<Rightarrow> 'f \<Rightarrow> 'f"

text \<open>
  Graph nodes (variables and gradient tensors) are handles; the values the variables hold
  on the devices live in an explicit store, because \<open>var.load\<close> mutates them and several
  replicas might share a handle.

  The fields of \<open>trainer\<close> are the attributes of the object and the module global:
  \<open>monitors\<close> is the list of the scalars put so far, \<open>store\<close> the value every variable
  holds, and \<open>acc_obj\<close> tells the list objects bound to \<open>self.acc_values\<close> apart: it counts
  the lists line 170 has built, so it changes exactly when a new list is bound.  A function
  that can raise returns \<open>Inl\<close> of the exception and the state at the raise, since the
  mutations made before it stay.
\<close>

type_synonym var = nat
type_synonym gradt = nat

datatype error = IndexError | ValueError | TypeError | RunError | SinkError

record 'f trainer =
  all_vars :: "var list list"
  all_grads :: "gradt list"
  var_values :: "'f tensor list option"
  acc_values :: "'f tensor list option"
  acc_obj :: nat
  step_count :: int
  monitors :: "(string \<times> real) list"
  store :: "var \<Rightarrow> 'f tensor"

text \<open>
  What the collaborators outside the file hand to one call of \<open>run_step\<close>: the value every
  gradient tensor of the graph evaluates to in this step, whether the hooked session raises,
  the measured wall-clock difference, and whether \<open>monitors.put_scalar\<close> raises.
\<close>

record 'f env =
  fetch :: "gradt \<Rightarrow> 'f tensor"
  run_raises :: "error option"
  duration :: real
  sink_raises :: "error option"

section \<open>The numpy operations used by the update\<close>

fun shape :: "'f tensor \<Rightarrow> nat list" where
  "shape (Scalar x) = []"
| "shape (Array xs) = [length xs]"

fun elems :: "'f tensor \<Rightarrow> 'f list" where
  "elems (Scalar x) = [x]"
| "elems (Array xs) = xs"

fun zeros_like :: "'f arith \<Rightarrow> 'f tensor \<Rightarrow> 'f tensor" where
  "zeros_like A (Scalar x) = Scalar (f_zero A)"
| "zeros_like A (Array xs) = Array (replicate (length xs) (f_zero A))"

text \<open>\<open>a * c\<close> and \<open>c * a\<close> for a Python float \<open>c\<close>.\<close>

fun mul_scalar :: "'f arith \<Rightarrow> 'f tensor \<Rightarrow> real \<Rightarrow> 'f tensor" where
  "mul_scalar A (Scalar x) c = Scalar (f_mul A x c)"
| "mul_scalar A (Array xs) c = Array (map (\<lambda>x. f_mul A x c) xs)"

fun scalar_mul :: "'f arith \<Rightarrow> real \<Rightarrow> 'f tensor \<Rightarrow> 'f tensor" where
  "scalar_mul A c (Scalar x) = Scalar (f_rmul A c x)"
| "scalar_mul A c (Array xs) = Array (map (\<lambda>x. f_rmul A c x) xs)"

text \<open>\<open>a + b\<close>: element-wise; a scalar or a one-element array is broadcast; any other
  disagreement of the shapes raises.\<close>

fun np_add :: "'f arith \<Rightarrow> 'f tensor \<Rightarrow> 'f tensor \<Rightarrow> error + 'f tensor" where
  "np_add A (Scalar x) (Scalar y) = Inr (Scalar (f_add A x y))"
| "np_add A (Scalar x) (Array ys) = Inr (Array (map (\<lambda>y. f_add A x y) ys))"
| "np_add A (Array xs) (Scalar y) = Inr (Array (map (\<lambda>x. f_add A x y) xs))"
| "np_add A (Array xs) (Array ys) =
     (if length xs = length ys then Inr (Array (map2 (f_add A) xs ys))
      else if length ys = 1 then Inr (Array (map (\<lambda>x. f_add A x (hd ys)) xs))
      else if length xs = 1 then Inr (Array (map (\<lambda>y. f_add A (hd xs) y) ys))
      else Inl ValueError)"

text \<open>
  What \<open>v -= x\<close> makes of the object \<open>v\<close> was bound to, which is the entry of
  \<open>self.var_values\<close>.  An array is changed in place, so \<open>x\<close> must broadcast to its shape.
  A numpy scalar cannot be changed: the statement binds the local name \<open>v\<close> to the
  difference and the entry of the list keeps its value.
\<close>

fun np_isub :: "'f arith \<Rightarrow> 'f tensor \<Rightarrow> 'f tensor \<Rightarrow> error + 'f tensor" where
  "np_isub A (Scalar p) x = Inr (Scalar p)"
| "np_isub A (Array vs) (Scalar c) = Inr (Array (map (\<lambda>a. f_sub A a c) vs))"
| "np_isub A (Array vs) (Array xs) =
     (if length xs = length vs then Inr (Array (map2 (f_sub A) vs xs))
      else if length xs = 1 then Inr (Array (map (\<lambda>a. f_sub A a (hd xs)) vs))
      else Inl ValueError)"

section \<open>The trainer\<close>

definition lr :: real where
  "lr = 0.01"

definition momentum :: real where
  "momentum = 0.9"

text \<open>\<open>_setup_graph\<close>, given \<open>self._builder.grads\<close> as the call of the superclass left it:
  one list of (gradient, variable) pairs per replica.  The callbacks it returns are not
  modelled.\<close>

definition setup_graph :: "(gradt \<times> var) list list \<Rightarrow> 'f trainer \<Rightarrow> error \<times> 'f trainer + 'f trainer" where
  "setup_graph grads s =
     (let s1 = s\<lparr>all_vars := map (map snd) grads\<rparr> in
      case grads of
        [] \<Rightarrow> Inl (IndexError, s1)
      | g0 # _ \<Rightarrow> Inr (s1\<lparr>all_grads := map fst g0, acc_values := None\<rparr>))"

text \<open>The state of the program before \<open>_setup_graph\<close>: the module global is \<open>0\<close> and the
  class attribute \<open>var_values\<close> is \<open>None\<close>.\<close>

definition initial :: "(var \<Rightarrow> 'f tensor) \<Rightarrow> 'f trainer" where
  "initial st = \<lparr>all_vars = [], all_grads = [], var_values = None, acc_values = None,
     acc_obj = 0, step_count = 0, monitors = [], store = st\<rparr>"

definition get_values :: "'f trainer \<Rightarrow> error \<times> 'f trainer + 'f trainer" where
  "get_values s =
     (case all_vars s of
        [] \<Rightarrow> Inl (IndexError, s)
      | vars0 # _ \<Rightarrow> Inr (s\<lparr>var_values := Some (map (store s) vars0)\<rparr>))"

text \<open>\<open>var.load(val)\<close> assigns the value to the variable; the assignment checks the shape.\<close>

fun load_all :: "('f tensor \<times> var) list \<Rightarrow> (var \<Rightarrow> 'f tensor)
    \<Rightarrow> error \<times> (var \<Rightarrow> 'f tensor) + (var \<Rightarrow> 'f tensor)" where
  "load_all [] st = Inr st"
| "load_all ((val, v) # rest) st =
     (if shape val \<noteq> shape (st v) then Inl (ValueError, st)
      else load_all rest (st(v := val)))"

fun set_replicas :: "'f tensor list \<Rightarrow> var list list \<Rightarrow> (var \<Rightarrow> 'f tensor)
    \<Rightarrow> error \<times> (var \<Rightarrow> 'f tensor) + (var \<Rightarrow> 'f tensor)" where
  "set_replicas vals [] st = Inr st"
| "set_replicas vals (r # rs) st =
     (case load_all (zip vals r) st of
        Inl e \<Rightarrow> Inl e
      | Inr st' \<Rightarrow> set_replicas vals rs st')"

definition set_values :: "'f trainer \<Rightarrow> error \<times> 'f trainer + 'f trainer" where
  "set_values s =
     (case var_values s of
        None \<Rightarrow> (if all_vars s = [] then Inr s else Inl (TypeError, s))
      | Some vals \<Rightarrow>
          (case set_replicas vals (all_vars s) (store s) of
             Inl (e, st) \<Rightarrow> Inl (e, s\<lparr>store := st\<rparr>)
           | Inr st \<Rightarrow> Inr (s\<lparr>store := st\<rparr>)))"

text \<open>\<open>not self.acc_values\<close>: \<open>None\<close> and the empty list are both false in Python.\<close>

definition falsy :: "'f tensor list option \<Rightarrow> bool" where
  "falsy a = (case a of None \<Rightarrow> True | Some xs \<Rightarrow> xs = [])"

text \<open>Lines 169 and 170: the list comprehension builds a new list object.\<close>

definition init_acc :: "'f arith \<Rightarrow> 'f tensor list \<Rightarrow> 'f trainer \<Rightarrow> 'f trainer" where
  "init_acc A grad_values s =
     (if falsy (acc_values s)
      then s\<lparr>acc_values := Some (map (zeros_like A) grad_values), acc_obj := acc_obj s + 1\<rparr>
      else s)"

text \<open>
  The loop \<open>for i in range(len(self.var_values))\<close>, over the indices still to visit, with
  the learning rate \<open>l\<close> and the momentum \<open>m\<close> of its body.  The result of a raise carries
  the lists as the loop left them: \<open>acc_values[i]\<close> is assigned before \<open>v -= ...\<close> is
  tried.  The entry \<open>i\<close> of \<open>var_values\<close> is never assigned: it becomes what \<open>-=\<close> made
  of the object it holds.
\<close>

fun update_loop :: "'f arith \<Rightarrow> real \<Rightarrow> real \<Rightarrow> 'f tensor list \<Rightarrow> nat list
    \<Rightarrow> 'f tensor list \<Rightarrow> 'f tensor list
    \<Rightarrow> error \<times> 'f tensor list \<times> 'f tensor list + 'f tensor list \<times> 'f tensor list" where
  "update_loop A l m gs [] vs accs = Inr (vs, accs)"
| "update_loop A l m gs (i # is) vs accs =
     (if length vs \<le> i then Inl (IndexError, vs, accs)
      else if length gs \<le> i then Inl (IndexError, vs, accs)
      else if length accs \<le> i then Inl (IndexError, vs, accs)
      else case np_add A (mul_scalar A (accs ! i) m) (gs ! i) of
             Inl e \<Rightarrow> Inl (e, vs, accs)
           | Inr a \<Rightarrow>
               (case np_isub A (vs ! i) (scalar_mul A l a) of
                  Inl e \<Rightarrow> Inl (e, vs, accs[i := a])
                | Inr v \<Rightarrow> update_loop A l m gs is (vs[i := v]) (accs[i := a])))"

text \<open>What \<open>self.hooked_sess.run(self.all_grads)\<close> returns when it returns.\<close>

definition run_grads :: "'f env \<Rightarrow> 'f trainer \<Rightarrow> 'f tensor list" where
  "run_grads e s = map (fetch e) (all_grads s)"

definition hooked_run :: "'f env \<Rightarrow> 'f trainer \<Rightarrow> error \<times> 'f trainer + 'f tensor list" where
  "hooked_run e s =
     (case run_raises e of
        Some x \<Rightarrow> Inl (x, s)
      | None \<Rightarrow> Inr (run_grads e s))"

definition put_scalar :: "'f env \<Rightarrow> string \<Rightarrow> real \<Rightarrow> 'f trainer \<Rightarrow> error \<times> 'f trainer + 'f trainer" where
  "put_scalar e name val s =
     (case sink_raises e of
        Some x \<Rightarrow> Inl (x, s)
      | None \<Rightarrow> Inr (s\<lparr>monitors := monitors s @ [(name, val)]\<rparr>))"

text \<open>Lines 166 to 185: the accumulator is created when missing, the loop runs, and the
  snapshot is written to every replica.\<close>

definition apply_update :: "'f arith \<Rightarrow> 'f tensor list \<Rightarrow> 'f trainer \<Rightarrow> error \<times> 'f trainer + 'f trainer" where
  "apply_update A grad_values s =
     (let s1 = init_acc A grad_values s in
      case var_values s1 of
        None \<Rightarrow> Inl (TypeError, s1)
      | Some vs \<Rightarrow>
          (case acc_values s1 of
             None \<Rightarrow> Inl (TypeError, s1)
           | Some accs \<Rightarrow>
               (case update_loop A lr momentum grad_values [0..<length vs] vs accs of
                  Inl (e, vs', accs') \<Rightarrow>
                    Inl (e, s1\<lparr>var_values := Some vs', acc_values := Some accs'\<rparr>)
                | Inr (vs', accs') \<Rightarrow>
                    set_values (s1\<lparr>var_values := Some vs', acc_values := Some accs'\<rparr>))))"

definition run_step :: "'f arith \<Rightarrow> 'f env \<Rightarrow> 'f trainer \<Rightarrow> error \<times> 'f trainer + 'f trainer" where
  "run_step A e s =
     (let s1 = s\<lparr>step_count := step_count s + 1\<rparr> in
      case (if var_values s1 = None then get_values s1 else Inr s1) of
        Inl x \<Rightarrow> Inl x
      | Inr s2 \<Rightarrow>
          (case hooked_run e s2 of
             Inl x \<Rightarrow> Inl x
           | Inr grad_values \<Rightarrow>
               (case (if step_count s2 mod 10 = 0
                      then put_scalar e ''step_time'' (duration e) s2 else Inr s2) of
                  Inl x \<Rightarrow> Inl x
                | Inr s3 \<Rightarrow> apply_update A grad_values s3)))"

text \<open>The training loop of the framework calls \<open>run_step\<close> once per step and stops at the
  first exception.\<close>

fun run_steps :: "'f arith \<Rightarrow> 'f env list \<Rightarrow> 'f trainer \<Rightarrow> error \<times> 'f trainer + 'f trainer" where
  "run_steps A [] s = Inr s"
| "run_steps A (e # es) s =
     (case run_step A e s of
        Inl x \<Rightarrow> Inl x
      | Inr s' \<Rightarrow> run_steps A es s')"

text \<open>The host snapshots after each completed step.\<close>

fun trajectory :: "'f arith \<Rightarrow> 'f env list \<Rightarrow> 'f trainer \<Rightarrow> 'f tensor list option list" where
  "trajectory A [] s = []"
| "trajectory A (e # es) s =
     (case run_step A e s of
        Inl x \<Rightarrow> []
      | Inr s' \<Rightarrow> var_values s' # trajectory A es s')"

section \<open>Notions used to state the properties\<close>

text \<open>The host snapshot a step starts from: \<open>var_values\<close>, or what \<open>_get_values\<close> is about
  to read from replica 0 when it is still \<open>None\<close>.\<close>

definition snapshot :: "'f trainer \<Rightarrow> 'f tensor list" where
  "snapshot s =
     (case var_values s of
        Some vs \<Rightarrow> vs
      | None \<Rightarrow> (case all_vars s of [] \<Rightarrow> [] | r # _ \<Rightarrow> map (store s) r))"

text \<open>The accumulator the loop of a step starts from, after lines 169 and 170.\<close>

definition acc_before :: "'f arith \<Rightarrow> 'f tensor list \<Rightarrow> 'f trainer \<Rightarrow> 'f tensor list" where
  "acc_before A grad_values s =
     (case acc_values s of
        None \<Rightarrow> map (zeros_like A) grad_values
      | Some xs \<Rightarrow> if xs = [] then map (zeros_like A) grad_values else xs)"

text \<open>What the framework sets up: no variable belongs to two replicas or twice to one, and
  every replica has as many variables as the snapshot has entries.\<close>

definition replicas_ok :: "'f trainer \<Rightarrow> bool" where
  "replicas_ok s =
     (distinct (concat (all_vars s)) \<and>
      list_all (\<lambda>r. length r = length (snapshot s)) (all_vars s))"

text \<open>Every replica holds the host snapshot.\<close>

definition synced :: "'f trainer \<Rightarrow> bool" where
  "synced s =
     (case var_values s of
        None \<Rightarrow> False
      | Some vals \<Rightarrow> list_all (\<lambda>r. map (store s) r = vals) (all_vars s))"

text \<open>Two environments that agree on the gradient tensors \<open>G\<close> and on everything else the
  collaborators answer; they may differ on every other gradient tensor.\<close>

definition same_on :: "gradt list \<Rightarrow> 'f env \<Rightarrow> 'f env \<Rightarrow> bool" where
  "same_on G e1 e2 =
     (list_all (\<lambda>g. fetch e1 g = fetch e2 g) G \<and> run_raises e1 = run_raises e2 \<and>
      duration e1 = duration e2 \<and> sink_raises e1 = sink_raises e2)"

text \<open>The exact arithmetic of the real numbers, in which the examples are run.\<close>

definition real_arith :: "real arith" where
  "real_arith = \<lparr>f_zero = 0, f_mul = (\<lambda>x c. x * c), f_rmul = (\<lambda>c x. c * x),
     f_add = (\<lambda>x y. x + y), f_sub = (\<lambda>x y. x - y)\<rparr>"

section \<open>Example states\<close>

text \<open>Two replicas with one array parameter each, holding \<open>1.0\<close>; the gradients of replica 0
  are \<open>2.0\<close> in the first step and \<open>1.0\<close> in the second, which gives \<open>0.98\<close> and then
  \<open>0.952\<close>.\<close>

definition ex_grads :: "(gradt \<times> var) list list" where
  "ex_grads = [[(10, 0)], [(11, 1)]]"

definition ex_trainer :: "real trainer" where
  "ex_trainer = \<lparr>all_vars = [[0], [1]], all_grads = [10], var_values = None,
     acc_values = None, acc_obj = 0, step_count = 0, monitors = [],
     store = (\<lambda>v. Array [1])\<rparr>"

definition ex_env :: "real env" where
  "ex_env = \<lparr>fetch = (\<lambda>g. if g = 10 then Array [2] else Array [5]), run_raises = None,
     duration = 3, sink_raises = None\<rparr>"

definition ex_env2 :: "real env" where
  "ex_env2 = \<lparr>fetch = (\<lambda>g. if g = 10 then Array [1] else Array [7]), run_raises = None,
     duration = 4, sink_raises = None\<rparr>"

definition ex_trainer1 :: "real trainer" where
  "ex_trainer1 = \<lparr>all_vars = [[0], [1]], all_grads = [10], var_values = Some [Array [0.98]],
     acc_values = Some [Array [2]], acc_obj = 1, step_count = 1, monitors = [],
     store = (\<lambda>v. Array [1])(0 := Array [0.98], 1 := Array [0.98])\<rparr>"

definition ex_trainer2 :: "real trainer" where
  "ex_trainer2 = \<lparr>all_vars = [[0], [1]], all_grads = [10], var_values = Some [Array [0.952]],
     acc_values = Some [Array [2.8]], acc_obj = 1, step_count = 2, monitors = [],
     store = (\<lambda>v. Array [1])(0 := Array [0.952], 1 := Array [0.952])\<rparr>"

definition ex_env_other :: "real env" where
  "ex_env_other = \<lparr>fetch = (\<lambda>g. if g = 10 then Array [2] else Array [99]), run_raises = None,
     duration = 3, sink_raises = None\<rparr>"

text \<open>A second trainer with one replica, another variable, a counter already at 8 and a
  non-empty telemetry log, fed the same gradients.\<close>

definition ex_b :: "real trainer" where
  "ex_b = \<lparr>all_vars = [[5]], all_grads = [20], var_values = None,
     acc_values = None, acc_obj = 0, step_count = 8, monitors = [(''loss'', 1)],
     store = (\<lambda>v. Array [1])\<rparr>"

definition ex_envb :: "real env" where
  "ex_envb = \<lparr>fetch = (\<lambda>g. if g = 20 then Array [2] else Array []), run_raises = None,
     duration = 6, sink_raises = None\<rparr>"

definition ex_envb2 :: "real env" where
  "ex_envb2 = \<lparr>fetch = (\<lambda>g. if g = 20 then Array [1] else Array []), run_raises = None,
     duration = 7, sink_raises = None\<rparr>"

definition ex_b1 :: "real trainer" where
  "ex_b1 = \<lparr>all_vars = [[5]], all_grads = [20], var_values = Some [Array [0.98]],
     acc_values = Some [Array [2]], acc_obj = 1, step_count = 9, monitors = [(''loss'', 1)],
     store = (\<lambda>v. Array [1])(5 := Array [0.98])\<rparr>"

definition ex_b2 :: "real trainer" where
  "ex_b2 = \<lparr>all_vars = [[5]], all_grads = [20], var_values = Some [Array [0.952]],
     acc_values = Some [Array [2.8]], acc_obj = 1, step_count = 10,
     monitors = [(''loss'', 1), (''step_time'', 7)],
     store = (\<lambda>v. Array [1])(5 := Array [0.952])\<rparr>"

text \<open>Twelve steps, the duration of step \<open>k\<close> being \<open>k\<close>.\<close>

definition ex_envs :: "real env list" where
  "ex_envs = map (\<lambda>k. ex_env\<lparr>duration := real k\<rparr>) [1, 2, 3, 4, 5, 6, 7, 8, 9, 10, 11, 12]"

text \<open>A model without trainable parameters, after some steps.\<close>

definition ex_empty :: "real trainer" where
  "ex_empty = \<lparr>all_vars = [[], []], all_grads = [], var_values = Some [],
     acc_values = Some [], acc_obj = 4, step_count = 4, monitors = [],
     store = (\<lambda>v. Array [1])\<rparr>"

text \<open>A sink that raises, at a step whose count becomes 10.\<close>

definition ex_env_sink :: "real env" where
  "ex_env_sink = \<lparr>fetch = (\<lambda>g. if g = 10 then Array [1] else Array [7]), run_raises = None,
     duration = 4, sink_raises = Some SinkError\<rparr>"

definition ex_trainer9 :: "real trainer" where
  "ex_trainer9 = \<lparr>all_vars = [[0], [1]], all_grads = [10], var_values = Some [Array [0.98]],
     acc_values = Some [Array [2]], acc_obj = 1, step_count = 9, monitors = [],
     store = (\<lambda>v. Array [1])(0 := Array [0.98], 1 := Array [0.98])\<rparr>"

text \<open>The example of a parameter without axis: two replicas hold the scalar \<open>1.0\<close>, and
  the gradient of replica 0 is the scalar \<open>2.0\<close>.\<close>

definition ex_scalar :: "real trainer" where
  "ex_scalar = \<lparr>all_vars = [[0], [1]], all_grads = [10], var_values = None,
     acc_values = None, acc_obj = 0, step_count = 0, monitors = [],
     store = (\<lambda>v. Scalar 1)\<rparr>"

definition ex_env_scalar :: "real env" where
  "ex_env_scalar = \<lparr>fetch = (\<lambda>g. Scalar 2), run_raises = None,
     duration = 3, sink_raises = None\<rparr>"

definition ex_scalar1 :: "real trainer" where
  "ex_scalar1 = \<lparr>all_vars = [[0], [1]], all_grads = [10], var_values = Some [Scalar 1],
     acc_values = Some [Scalar 2], acc_obj = 1, step_count = 1, monitors = [],
     store = (\<lambda>v. Scalar 1)(0 := Scalar 1, 1 := Scalar 1)\<rparr>"

section \<open>The update loop\<close>

lemma update_loop_Inr:
  assumes "update_loop A l m gs is vs accs = Inr (vs', accs')" "distinct is"
  shows "length vs' = length vs \<and> length accs' = length accs \<and>
     (\<forall>i\<in>set is. i < length vs \<and> i < length gs \<and> i < length accs \<and>
        np_add A (mul_scalar A (accs ! i) m) (gs ! i) = Inr (accs' ! i) \<and>
        np_isub A (vs ! i) (scalar_mul A l (accs' ! i)) = Inr (vs' ! i)) \<and>
     (\<forall>i. i \<notin> set is \<longrightarrow> vs' ! i = vs ! i \<and> accs' ! i = accs ! i)"
  using assms
proof (induction "is" arbitrary: vs accs)
  case Nil
  then show ?case by simp
next
  case (Cons i "is")
  from Cons.prems(1) have b: "i < length vs" "i < length gs" "i < length accs"
    by (auto split: if_splits)
  from Cons.prems(1) b obtain a where a: "np_add A (mul_scalar A (accs ! i) m) (gs ! i) = Inr a"
    by (auto split: sum.splits)
  from Cons.prems(1) b a obtain v where v: "np_isub A (vs ! i) (scalar_mul A l a) = Inr v"
    by (auto split: sum.splits)
  from Cons.prems(1) b a v have r:
    "update_loop A l m gs is (vs[i := v]) (accs[i := a]) = Inr (vs', accs')"
    by simp
  from Cons.prems(2) have d: "distinct is" "i \<notin> set is" by auto
  note ih = Cons.IH[OF r d(1)]
  from ih d(2) b have i1: "vs' ! i = v" "accs' ! i = a" by auto
  show ?case
  proof (intro conjI ballI allI impI)
    show "length vs' = length vs" using ih by simp
    show "length accs' = length accs" using ih by simp
  next
    fix j assume j: "j \<in> set (i # is)"
    show "j < length vs" using j b ih by auto
    show "j < length gs" using j b ih by auto
    show "j < length accs" using j b ih by auto
    show "np_add A (mul_scalar A (accs ! j) m) (gs ! j) = Inr (accs' ! j)"
    proof (cases "j = i")
      case True then show ?thesis using a i1 by simp
    next
      case False
      with j have "j \<in> set is" by simp
      with ih False show ?thesis by (metis nth_list_update_neq)
    qed
    show "np_isub A (vs ! j) (scalar_mul A l (accs' ! j)) = Inr (vs' ! j)"
    proof (cases "j = i")
      case True then show ?thesis using v i1 by simp
    next
      case False
      with j have "j \<in> set is" by simp
      with ih False show ?thesis by (metis nth_list_update_neq)
    qed
  next
    fix j assume "j \<notin> set (i # is)"
    then have "j \<noteq> i" "j \<notin> set is" by auto
    with ih show "vs' ! j = vs ! j" by (metis nth_list_update_neq)
  next
    fix j assume "j \<notin> set (i # is)"
    then have "j \<noteq> i" "j \<notin> set is" by auto
    with ih show "accs' ! j = accs ! j" by (metis nth_list_update_neq)
  qed
qed

section \<open>What a completed step does\<close>

lemma init_acc_simps:
  "acc_values (init_acc A gv s) = Some (acc_before A gv s)"
  "var_values (init_acc A gv s) = var_values s"
  "all_vars (init_acc A gv s) = all_vars s"
  "all_grads (init_acc A gv s) = all_grads s"
  "step_count (init_acc A gv s) = step_count s"
  "monitors (init_acc A gv s) = monitors s"
  "store (init_acc A gv s) = store s"
  "acc_obj (init_acc A gv s) = (if falsy (acc_values s) then acc_obj s + 1 else acc_obj s)"
  by (auto simp: init_acc_def acc_before_def falsy_def split: option.splits)

lemma set_values_Inr:
  assumes "set_values s = Inr s'" "var_values s = Some vals"
  shows "set_replicas vals (all_vars s) (store s) = Inr (store s')
     \<and> s' = s\<lparr>store := store s'\<rparr>"
  using assms by (auto simp: set_values_def split: sum.splits prod.splits)

lemma apply_update_Inr:
  assumes "apply_update A gv s = Inr s'"
  shows "\<exists>vs vs' accs'. var_values s = Some vs \<and>
      update_loop A lr momentum gv [0..<length vs] vs (acc_before A gv s) = Inr (vs', accs') \<and>
      var_values s' = Some vs' \<and> acc_values s' = Some accs' \<and>
      set_replicas vs' (all_vars s) (store s) = Inr (store s') \<and>
      all_vars s' = all_vars s \<and> all_grads s' = all_grads s \<and>
      step_count s' = step_count s \<and> monitors s' = monitors s \<and>
      acc_obj s' = (if falsy (acc_values s) then acc_obj s + 1 else acc_obj s)"
proof -
  from assms obtain vs where vs: "var_values s = Some vs"
    by (cases "var_values s") (auto simp: apply_update_def Let_def init_acc_simps)
  from assms vs obtain vs' accs' where
    ul: "update_loop A lr momentum gv [0..<length vs] vs (acc_before A gv s) = Inr (vs', accs')"
    and sv: "set_values (init_acc A gv s\<lparr>var_values := Some vs', acc_values := Some accs'\<rparr>) = Inr s'"
    by (auto simp: apply_update_def Let_def init_acc_simps split: sum.splits prod.splits)
  from set_values_Inr[OF sv] have
    sr: "set_replicas vs' (all_vars s) (store s) = Inr (store s')"
    and eq: "s' = init_acc A gv s\<lparr>var_values := Some vs', acc_values := Some accs', store := store s'\<rparr>"
    by (simp_all add: init_acc_simps)
  have "var_values s' = Some vs'" "acc_values s' = Some accs'" "all_vars s' = all_vars s"
    "all_grads s' = all_grads s" "step_count s' = step_count s" "monitors s' = monitors s"
    "acc_obj s' = (if falsy (acc_values s) then acc_obj s + 1 else acc_obj s)"
    by (subst eq, simp add: init_acc_simps)+
  with vs ul sr show ?thesis by blast
qed

lemma acc_before_cong:
  "acc_values s = acc_values t \<Longrightarrow> acc_before A gv s = acc_before A gv t"
  by (simp add: acc_before_def)

lemma run_step_Inr:
  assumes "run_step A e s = Inr s'"
  shows "\<exists>vs' accs'.
      update_loop A lr momentum (run_grads e s) [0..<length (snapshot s)]
        (snapshot s) (acc_before A (run_grads e s) s) = Inr (vs', accs') \<and>
      var_values s' = Some vs' \<and> acc_values s' = Some accs' \<and>
      set_replicas vs' (all_vars s) (store s) = Inr (store s') \<and>
      all_vars s' = all_vars s \<and> all_grads s' = all_grads s \<and>
      step_count s' = step_count s + 1 \<and>
      monitors s' = (if (step_count s + 1) mod 10 = 0
                     then monitors s @ [(''step_time'', duration e)] else monitors s) \<and>
      acc_obj s' = (if falsy (acc_values s) then acc_obj s + 1 else acc_obj s)"
proof -
  let ?s1 = "s\<lparr>step_count := step_count s + 1\<rparr>"
  define gv where "gv = run_grads e s"
  from assms obtain s2 where
    s2: "(if var_values s = None then get_values ?s1 else Inr ?s1) = Inr s2"
    by (auto simp: run_step_def Let_def split: sum.splits)
  have s2f: "var_values s2 = Some (snapshot s)" "acc_values s2 = acc_values s"
    "all_vars s2 = all_vars s" "all_grads s2 = all_grads s" "step_count s2 = step_count s + 1"
    "monitors s2 = monitors s" "store s2 = store s" "acc_obj s2 = acc_obj s"
    using s2 by (auto simp: get_values_def snapshot_def split: if_splits list.splits)
  from assms s2 have hr: "hooked_run e s2 = Inr gv"
    by (auto simp: run_step_def Let_def hooked_run_def gv_def run_grads_def s2f
        split: sum.splits option.splits)
  from assms s2 hr obtain s3 where
    s3: "(if step_count s2 mod 10 = 0 then put_scalar e ''step_time'' (duration e) s2 else Inr s2) = Inr s3"
    and au: "apply_update A gv s3 = Inr s'"
    by (auto simp: run_step_def Let_def split: sum.splits)
  have s3f: "var_values s3 = Some (snapshot s)" "acc_values s3 = acc_values s"
    "all_vars s3 = all_vars s" "all_grads s3 = all_grads s" "step_count s3 = step_count s + 1"
    "monitors s3 = (if (step_count s + 1) mod 10 = 0
                     then monitors s @ [(''step_time'', duration e)] else monitors s)"
    "store s3 = store s" "acc_obj s3 = acc_obj s"
    using s3 s2f by (auto simp: put_scalar_def split: if_splits option.splits)
  from apply_update_Inr[OF au] s3f acc_before_cong[OF s3f(2), of A gv]
  show ?thesis unfolding gv_def[symmetric] by auto
qed

lemmas eval_defs = run_step_def get_values_def hooked_run_def run_grads_def put_scalar_def
  apply_update_def init_acc_def falsy_def set_values_def real_arith_def lr_def momentum_def
  Let_def

lemma ex_step1: "run_step real_arith ex_env ex_trainer = Inr ex_trainer1"
  by (simp add: eval_defs ex_env_def ex_trainer_def ex_trainer1_def)

lemma ex_step2: "run_step real_arith ex_env2 ex_trainer1 = Inr ex_trainer2"
  by (simp add: eval_defs ex_env2_def ex_trainer1_def ex_trainer2_def)

lemma ex_steps12: "run_steps real_arith [ex_env, ex_env2] ex_trainer = Inr ex_trainer2"
  by (simp add: ex_step1 ex_step2)

section \<open>The update rule\<close>

text \<open>For an array parameter the loop computes the momentum rule element by element, in
  whatever arithmetic numpy uses.\<close>

lemma update_loop_array:
  assumes ul: "update_loop A l m gs [0..<length vs] vs accs = Inr (vs', accs')"
    and i: "i < length vs"
    and arr: "vs ! i = Array p" "gs ! i = Array g" "accs ! i = Array a"
    and sh: "length a = length g" "length g = length p"
  shows "\<exists>a' p'. accs' ! i = Array a' \<and> vs' ! i = Array p' \<and>
      length a' = length p \<and> length p' = length p \<and>
      (\<forall>j<length p. a' ! j = f_add A (f_mul A (a ! j) m) (g ! j) \<and>
                    p' ! j = f_sub A (p ! j) (f_rmul A l (a' ! j)))"
proof -
  from update_loop_Inr[OF ul] i have
    a: "np_add A (mul_scalar A (accs ! i) m) (gs ! i) = Inr (accs' ! i)" and
    v: "np_isub A (vs ! i) (scalar_mul A l (accs' ! i)) = Inr (vs' ! i)"
    by auto
  from a arr sh have a': "accs' ! i = Array (map2 (f_add A) (map (\<lambda>x. f_mul A x m) a) g)"
    by simp
  let ?a' = "map2 (f_add A) (map (\<lambda>x. f_mul A x m) a) g"
  have la: "length ?a' = length p" using sh by simp
  from v arr a' la have p': "vs' ! i = Array (map2 (f_sub A) p (map (\<lambda>x. f_rmul A l x) ?a'))"
    by simp
  let ?p' = "map2 (f_sub A) p (map (\<lambda>x. f_rmul A l x) ?a')"
  have lp: "length ?p' = length p" using la by simp
  have "?a' ! j = f_add A (f_mul A (a ! j) m) (g ! j) \<and>
        ?p' ! j = f_sub A (p ! j) (f_rmul A l (?a' ! j))" if "j < length p" for j
    using that sh by simp
  with a' p' la lp show ?thesis by blast
qed

lemma run_step_array_update:
  assumes step: "run_step A e s = Inr s'"
    and i: "i < length (snapshot s)"
    and arr: "snapshot s ! i = Array p" "run_grads e s ! i = Array g"
      "acc_before A (run_grads e s) s ! i = Array a"
    and sh: "length a = length g" "length g = length p"
  shows "\<exists>vs' accs' a' p'. var_values s' = Some vs' \<and> acc_values s' = Some accs' \<and>
      accs' ! i = Array a' \<and> vs' ! i = Array p' \<and>
      length a' = length p \<and> length p' = length p \<and>
      (\<forall>j<length p. a' ! j = f_add A (f_mul A (a ! j) 0.9) (g ! j) \<and>
                    p' ! j = f_sub A (p ! j) (f_rmul A 0.01 (a' ! j)))"
proof -
  from run_step_Inr[OF step] obtain vs' accs' where
    ul: "update_loop A lr momentum (run_grads e s) [0..<length (snapshot s)]
        (snapshot s) (acc_before A (run_grads e s) s) = Inr (vs', accs')"
    and f: "var_values s' = Some vs'" "acc_values s' = Some accs'"
    by blast
  from update_loop_array[OF ul i arr sh] f show ?thesis
    by (auto simp: lr_def momentum_def)
qed

text \<open>With a momentum of \<open>0\<close> that is plain gradient descent for an array parameter, as
  long as the arithmetic makes \<open>a * 0 + g\<close> equal to \<open>g\<close> for the entries at hand.\<close>

lemma update_loop_array_zero_momentum:
  assumes ul: "update_loop A l 0 gs [0..<length vs] vs accs = Inr (vs', accs')"
    and i: "i < length vs"
    and arr: "vs ! i = Array p" "gs ! i = Array g" "accs ! i = Array a"
    and sh: "length a = length g" "length g = length p"
    and law: "\<forall>j<length p. f_add A (f_mul A (a ! j) 0) (g ! j) = g ! j"
  shows "\<exists>p'. vs' ! i = Array p' \<and> length p' = length p \<and>
      (\<forall>j<length p. p' ! j = f_sub A (p ! j) (f_rmul A l (g ! j)))"
proof -
  from update_loop_array[OF ul i arr sh] obtain a' p' where
    "vs' ! i = Array p'" "length p' = length p"
    "\<forall>j<length p. a' ! j = f_add A (f_mul A (a ! j) 0) (g ! j) \<and>
                    p' ! j = f_sub A (p ! j) (f_rmul A l (a' ! j))"
    by blast
  with law show ?thesis by auto
qed

text \<open>A parameter without axis is left as it was, in any arithmetic: the loop binds the
  local name to the difference and never stores it.\<close>

lemma update_loop_scalar_unchanged:
  assumes ul: "update_loop A l m gs [0..<length vs] vs accs = Inr (vs', accs')"
    and i: "i < length vs" and sc: "vs ! i = Scalar p"
  shows "vs' ! i = Scalar p"
proof -
  from update_loop_Inr[OF ul] i have
    "np_isub A (vs ! i) (scalar_mul A l (accs' ! i)) = Inr (vs' ! i)"
    by auto
  with sc show ?thesis by simp
qed

lemma run_step_scalar_unchanged:
  assumes step: "run_step A e s = Inr s'"
    and i: "i < length (snapshot s)" and sc: "snapshot s ! i = Scalar p"
  shows "\<exists>vs'. var_values s' = Some vs' \<and> vs' ! i = Scalar p"
proof -
  from run_step_Inr[OF step] obtain vs' accs' where
    ul: "update_loop A lr momentum (run_grads e s) [0..<length (snapshot s)]
        (snapshot s) (acc_before A (run_grads e s) s) = Inr (vs', accs')"
    and f: "var_values s' = Some vs'"
    by blast
  from update_loop_scalar_unchanged[OF ul i sc] f show ?thesis by simp
qed

text \<open>
  Claim C1 does not hold of the code for a parameter without axis.  In the example of the
  specification (one scalar parameter \<open>1.0\<close>, gradient \<open>2.0\<close>) the step completes, the
  accumulator becomes \<open>0 * 0.9 + 2.0 = 2.0\<close> as the claim says, but the snapshot and both
  replicas still hold \<open>1.0\<close>, where the claim has \<open>1.0 - 0.01 * 2.0 = 0.98\<close>.
\<close>

theorem scalar_parameter_not_updated:
  "run_step real_arith ex_env_scalar ex_scalar = Inr ex_scalar1 \<and>
   snapshot ex_scalar = [Scalar 1] \<and> run_grads ex_env_scalar ex_scalar = [Scalar 2] \<and>
   acc_values ex_scalar1 = Some [Scalar (0 * 0.9 + 2)] \<and>
   var_values ex_scalar1 = Some [Scalar 1] \<and>
   store ex_scalar1 0 = Scalar 1 \<and> store ex_scalar1 1 = Scalar 1 \<and>
   (1::real) \<noteq> 1 - 0.01 * (0 * 0.9 + 2)"
  by (simp add: eval_defs snapshot_def ex_env_scalar_def ex_scalar_def ex_scalar1_def)


section \<open>The broadcast\<close>

lemma load_all_Inr:
  assumes "load_all (zip vals r) st = Inr st'" "distinct r" "length r = length vals"
  shows "map st' r = vals \<and> (\<forall>v. v \<notin> set r \<longrightarrow> st' v = st v)"
  using assms
proof (induction r arbitrary: vals st)
  case Nil
  then show ?case by simp
next
  case (Cons v r)
  then obtain x xs where vals: "vals = x # xs" by (cases vals) auto
  from Cons.prems vals have rest: "load_all (zip xs r) (st(v := x)) = Inr st'"
    by (auto split: if_splits)
  from Cons.prems vals have d: "distinct r" "v \<notin> set r" "length r = length xs" by auto
  from Cons.IH[OF rest d(1) d(3)] have ih: "map st' r = xs" "\<And>w. w \<notin> set r \<Longrightarrow> st' w = (st(v := x)) w"
    by auto
  from ih(2)[OF d(2)] have "st' v = x" by simp
  with ih vals show ?case by auto
qed

lemma set_replicas_Inr:
  assumes "set_replicas vals rs st = Inr st'" "distinct (concat rs)"
    "list_all (\<lambda>r. length r = length vals) rs"
  shows "list_all (\<lambda>r. map st' r = vals) rs \<and> (\<forall>v. v \<notin> set (concat rs) \<longrightarrow> st' v = st v)"
  using assms
proof (induction rs arbitrary: st)
  case Nil
  then show ?case by simp
next
  case (Cons r rs)
  from Cons.prems(1) obtain st1 where
    l: "load_all (zip vals r) st = Inr st1" and rest: "set_replicas vals rs st1 = Inr st'"
    by (auto split: sum.splits)
  from Cons.prems(2) have d: "distinct r" "distinct (concat rs)" "set r \<inter> set (concat rs) = {}"
    by auto
  from Cons.prems(3) have len: "length r = length vals" "list_all (\<lambda>r. length r = length vals) rs"
    by auto
  from load_all_Inr[OF l d(1) len(1)] have
    l1: "map st1 r = vals" "\<And>v. v \<notin> set r \<Longrightarrow> st1 v = st v" by auto
  from Cons.IH[OF rest d(2) len(2)] have
    ih: "list_all (\<lambda>r. map st' r = vals) rs" "\<And>v. v \<notin> set (concat rs) \<Longrightarrow> st' v = st1 v"
    by auto
  have "st' v = st1 v" if "v \<in> set r" for v
  proof -
    from that d(3) have "v \<notin> set (concat rs)" by blast
    then show ?thesis by (rule ih(2))
  qed
  then have "map st' r = map st1 r" by simp
  with l1(1) have "map st' r = vals" by simp
  moreover have "st' v = st v" if "v \<notin> set (concat (r # rs))" for v
    using that ih(2)[of v] l1(2)[of v] by simp
  ultimately show ?case using ih(1) by simp
qed

lemma run_step_sync:
  assumes step: "run_step A e s = Inr s'" and ok: "replicas_ok s"
  shows "replicas_ok s' \<and> synced s'"
proof -
  from run_step_Inr[OF step] obtain vs' accs' where
    ul: "update_loop A lr momentum (run_grads e s) [0..<length (snapshot s)]
        (snapshot s) (acc_before A (run_grads e s) s) = Inr (vs', accs')"
    and f: "var_values s' = Some vs'"
    and sr: "set_replicas vs' (all_vars s) (store s) = Inr (store s')"
    and av: "all_vars s' = all_vars s"
    by blast
  from update_loop_Inr[OF ul] have len: "length vs' = length (snapshot s)" by simp
  from ok have d: "distinct (concat (all_vars s))"
    and l: "list_all (\<lambda>r. length r = length vs') (all_vars s)"
    by (simp_all add: replicas_ok_def len)
  from set_replicas_Inr[OF sr d l] have "list_all (\<lambda>r. map (store s') r = vs') (all_vars s)"
    by simp
  then have "synced s'" by (simp add: synced_def f av)
  moreover have "replicas_ok s'"
    using d l by (simp add: replicas_ok_def av snapshot_def f)
  ultimately show ?thesis by simp
qed

text \<open>
  Claim C2.  In a run of any positive number of steps that all complete, started with
  replicas that own pairwise different variables, as many each as the snapshot has
  entries, every replica ends holding exactly the host snapshot, so any two replicas hold
  the same values; the number of replicas is arbitrary.
\<close>

theorem replicas_synced_after_step:
  assumes "run_steps A es s = Inr s'" and "es \<noteq> []" and "replicas_ok s"
  shows "\<exists>vals. var_values s' = Some vals \<and>
      list_all (\<lambda>r. map (store s') r = vals) (all_vars s') \<and>
      list_all (\<lambda>r1. list_all (\<lambda>r2. map (store s') r1 = map (store s') r2) (all_vars s'))
        (all_vars s')"
proof -
  have "replicas_ok s' \<and> synced s'"
    using assms
  proof (induction es arbitrary: s)
    case Nil
    then show ?case by simp
  next
    case (Cons e es)
    from Cons.prems(1) obtain s1 where
      s1: "run_step A e s = Inr s1" and rest: "run_steps A es s1 = Inr s'"
      by (auto split: sum.splits)
    note one = run_step_sync[OF s1 Cons.prems(3)]
    show ?case
    proof (cases "es = []")
      case True
      with rest one show ?thesis by simp
    next
      case False
      from Cons.IH[OF rest False] one show ?thesis by simp
    qed
  qed
  then obtain vals where v: "var_values s' = Some vals"
    and a: "list_all (\<lambda>r. map (store s') r = vals) (all_vars s')"
    by (auto simp: synced_def split: option.splits)
  from a have "list_all (\<lambda>r1. list_all (\<lambda>r2. map (store s') r1 = map (store s') r2) (all_vars s'))
        (all_vars s')"
    by (auto simp: list_all_iff)
  with v a show ?thesis by blast
qed

theorem replicas_synced_after_step_witness:
  "run_steps real_arith [ex_env, ex_env2] ex_trainer = Inr ex_trainer2 \<and> [ex_env, ex_env2] \<noteq> [] \<and>
   replicas_ok ex_trainer \<and> all_vars ex_trainer2 = [[0], [1]] \<and>
   var_values ex_trainer2 = Some [Array [0.952]] \<and>
   map (store ex_trainer2) [0] = [Array [0.952]] \<and> map (store ex_trainer2) [1] = [Array [0.952]]"
proof -
  have ok: "replicas_ok ex_trainer"
    by (simp add: replicas_ok_def snapshot_def ex_trainer_def)
  have ne: "[ex_env, ex_env2] \<noteq> []" by simp
  from replicas_synced_after_step[OF ex_steps12 ne ok]
  have "map (store ex_trainer2) [0] = [Array [0.952]] \<and> map (store ex_trainer2) [1] = [Array [0.952]]"
    by (simp add: ex_trainer2_def)
  with ok ex_steps12 show ?thesis by (simp add: ex_trainer2_def)
qed

lemma setup_graph_replicas_ok:
  assumes "setup_graph grads s0 = Inr s" "var_values s0 = None"
    "distinct (concat (map (map snd) grads))"
    "list_all (\<lambda>g. length g = length (hd grads)) grads"
  shows "replicas_ok s"
  using assms
  by (cases grads) (auto simp: setup_graph_def replicas_ok_def snapshot_def Let_def list_all_iff)

section \<open>Which gradients a step reads\<close>

lemma run_step_all_grads: "run_step A e s = Inr s' \<Longrightarrow> all_grads s' = all_grads s"
  using run_step_Inr by blast

lemma run_grads_cong: "all_grads s = all_grads t \<Longrightarrow> run_grads e s = run_grads e t"
  by (simp add: run_grads_def)

lemma run_step_same_on:
  assumes "same_on (all_grads s) e1 e2"
  shows "run_step A e1 s = run_step A e2 s"
proof -
  let ?X = "if var_values (s\<lparr>step_count := step_count s + 1\<rparr>) = None
            then get_values (s\<lparr>step_count := step_count s + 1\<rparr>)
            else Inr (s\<lparr>step_count := step_count s + 1\<rparr>)"
  show ?thesis
  proof (cases ?X)
    case (Inl x)
    then show ?thesis by (simp add: run_step_def Let_def)
  next
    case (Inr s2)
    then have g: "all_grads s2 = all_grads s"
      by (auto simp: get_values_def split: if_splits list.splits)
    from assms g have rg: "run_grads e1 s2 = run_grads e2 s2"
      by (simp add: same_on_def run_grads_def list_all_iff)
    from assms have "run_raises e1 = run_raises e2" by (simp add: same_on_def)
    with rg have h: "hooked_run e1 s2 = hooked_run e2 s2"
      by (simp add: hooked_run_def split: option.splits)
    from assms have p: "put_scalar e1 ''step_time'' (duration e1) s2
        = put_scalar e2 ''step_time'' (duration e2) s2"
      by (simp add: put_scalar_def same_on_def)
    from Inr h p show ?thesis by (simp add: run_step_def Let_def split: sum.splits)
  qed
qed

text \<open>
  Claim C3.  After \<open>_setup_graph\<close>, two runs whose environments agree on the gradient
  tensors of replica 0 (and on the collaborators' other answers) end in the same outcome,
  whatever the gradient tensors of the other replicas evaluate to: only replica 0's
  gradients are fetched, for any number of replicas.
\<close>

theorem only_replica0_gradients:
  assumes "setup_graph grads s0 = Inr s"
    and "list_all2 (same_on (map fst (hd grads))) es1 es2"
  shows "run_steps A es1 s = run_steps A es2 s"
proof -
  from assms(1) have G: "all_grads s = map fst (hd grads)"
    by (cases grads) (auto simp: setup_graph_def Let_def)
  from assms(2) G show ?thesis
  proof (induction es1 es2 arbitrary: s rule: list_all2_induct)
    case Nil
    then show ?case by simp
  next
    case (Cons e1 es1 e2 es2)
    from Cons.hyps(1) Cons.prems have eq: "run_step A e1 s = run_step A e2 s"
      by (simp add: run_step_same_on)
    show ?case
    proof (cases "run_step A e2 s")
      case (Inl x)
      with eq show ?thesis by simp
    next
      case (Inr s1)
      from run_step_all_grads[OF Inr] Cons.prems have "all_grads s1 = map fst (hd grads)"
        by simp
      from Cons.IH[OF this] eq Inr show ?thesis by simp
    qed
  qed
qed

theorem only_replica0_gradients_witness:
  "setup_graph ex_grads (initial (\<lambda>v. Array [1])) = Inr ex_trainer \<and>
   list_all2 (same_on (map fst (hd ex_grads))) [ex_env] [ex_env_other] \<and>
   fetch ex_env 11 = Array [5] \<and> fetch ex_env_other 11 = Array [99] \<and>
   run_steps real_arith [ex_env_other] ex_trainer = Inr ex_trainer1"
proof -
  have a: "setup_graph ex_grads (initial (\<lambda>v. Array [1])) = Inr ex_trainer"
    by (simp add: setup_graph_def ex_grads_def initial_def ex_trainer_def)
  have b: "list_all2 (same_on (map fst (hd ex_grads))) [ex_env] [ex_env_other]"
    by (simp add: same_on_def ex_grads_def ex_env_def ex_env_other_def)
  have c: "run_steps real_arith [ex_env] ex_trainer = Inr ex_trainer1"
    by (simp add: ex_step1)
  from only_replica0_gradients[OF a b] c have "run_steps real_arith [ex_env_other] ex_trainer = Inr ex_trainer1"
    by simp
  with a b show ?thesis by (simp add: ex_env_def ex_env_other_def)
qed

section \<open>Determinism of the trajectory\<close>

lemma run_step_numeric:
  assumes "run_step A e1 s1 = Inr t1" "run_step A e2 s2 = Inr t2"
    and "snapshot s1 = snapshot s2" "acc_values s1 = acc_values s2"
    and "run_grads e1 s1 = run_grads e2 s2"
  shows "var_values t1 = var_values t2 \<and> acc_values t1 = acc_values t2 \<and>
     snapshot t1 = snapshot t2"
proof -
  from run_step_Inr[OF assms(1)] obtain vs1 accs1 where
    1: "update_loop A lr momentum (run_grads e1 s1) [0..<length (snapshot s1)]
        (snapshot s1) (acc_before A (run_grads e1 s1) s1) = Inr (vs1, accs1)"
      "var_values t1 = Some vs1" "acc_values t1 = Some accs1"
    by blast
  from run_step_Inr[OF assms(2)] obtain vs2 accs2 where
    2: "update_loop A lr momentum (run_grads e2 s2) [0..<length (snapshot s2)]
        (snapshot s2) (acc_before A (run_grads e2 s2) s2) = Inr (vs2, accs2)"
      "var_values t2 = Some vs2" "acc_values t2 = Some accs2"
    by blast
  have "acc_before A (run_grads e1 s1) s1 = acc_before A (run_grads e2 s2) s2"
    using assms(4,5) by (simp add: acc_before_def)
  with 1(1) 2(1) assms(3,5) have "vs1 = vs2" "accs1 = accs2" by simp_all
  with 1 2 show ?thesis by (simp add: snapshot_def)
qed

lemma trajectory_deterministic:
  assumes "run_steps A es1 s1 = Inr t1" "run_steps A es2 s2 = Inr t2"
    and "snapshot s1 = snapshot s2" "acc_values s1 = acc_values s2"
    and "map (\<lambda>e. run_grads e s1) es1 = map (\<lambda>e. run_grads e s2) es2"
  shows "trajectory A es1 s1 = trajectory A es2 s2"
  using assms
proof (induction es1 arbitrary: es2 s1 s2)
  case Nil
  then show ?case by simp
next
  case (Cons e1 r1)
  from Cons.prems(5) obtain e2 r2 where es2: "es2 = e2 # r2" by (cases es2) auto
  from Cons.prems(1) obtain u1 where
    u1: "run_step A e1 s1 = Inr u1" "run_steps A r1 u1 = Inr t1"
    by (auto split: sum.splits)
  from Cons.prems(2) es2 obtain u2 where
    u2: "run_step A e2 s2 = Inr u2" "run_steps A r2 u2 = Inr t2"
    by (auto split: sum.splits)
  from Cons.prems(5) es2 have g: "run_grads e1 s1 = run_grads e2 s2"
    and gs: "map (\<lambda>e. run_grads e s1) r1 = map (\<lambda>e. run_grads e s2) r2"
    by simp_all
  note n = run_step_numeric[OF u1(1) u2(1) Cons.prems(3,4) g]
  have "map (\<lambda>e. run_grads e u1) r1 = map (\<lambda>e. run_grads e u2) r2"
    using gs run_grads_cong[OF run_step_all_grads[OF u1(1)]]
      run_grads_cong[OF run_step_all_grads[OF u2(1)]] by simp
  from Cons.IH[OF u1(2) u2(2) _ _ this] n have "trajectory A r1 u1 = trajectory A r2 u2"
    by simp
  with u1(1) u2(1) n es2 show ?case by simp
qed

text \<open>
  Claim C6.  Two runs whose steps all complete, started from the same parameter snapshot
  with no accumulator yet, and receiving the same gradient sets in the same order, go
  through the same sequence of parameter values; the step counter, the telemetry, the
  measured durations and the replicas' stores may differ between the runs.
\<close>

theorem same_gradients_same_trajectory:
  assumes "run_steps A es1 s1 = Inr t1" and "run_steps A es2 s2 = Inr t2"
    and "snapshot s1 = snapshot s2" and "acc_values s1 = None" and "acc_values s2 = None"
    and "map (\<lambda>e. run_grads e s1) es1 = map (\<lambda>e. run_grads e s2) es2"
  shows "trajectory A es1 s1 = trajectory A es2 s2"
  using trajectory_deterministic[OF assms(1,2,3) _ assms(6)] assms(4,5) by simp

lemma ex_b_steps: "run_steps real_arith [ex_envb, ex_envb2] ex_b = Inr ex_b2"
proof -
  have 1: "run_step real_arith ex_envb ex_b = Inr ex_b1"
    by (simp add: eval_defs ex_envb_def ex_b_def ex_b1_def)
  have 2: "run_step real_arith ex_envb2 ex_b1 = Inr ex_b2"
    by (simp add: eval_defs ex_envb2_def ex_b1_def ex_b2_def)
  from 1 2 show ?thesis by simp
qed

theorem same_gradients_same_trajectory_witness:
  "run_steps real_arith [ex_env, ex_env2] ex_trainer = Inr ex_trainer2 \<and>
   run_steps real_arith [ex_envb, ex_envb2] ex_b = Inr ex_b2 \<and>
   snapshot ex_trainer = [Array [1]] \<and> snapshot ex_b = [Array [1]] \<and>
   step_count ex_trainer = 0 \<and> step_count ex_b = 8 \<and>
   trajectory real_arith [ex_env, ex_env2] ex_trainer = [Some [Array [0.98]], Some [Array [0.952]]] \<and>
   trajectory real_arith [ex_envb, ex_envb2] ex_b = [Some [Array [0.98]], Some [Array [0.952]]]"
proof -
  have sn: "snapshot ex_trainer = [Array [1]]" "snapshot ex_b = [Array [1]]"
    by (simp_all add: snapshot_def ex_trainer_def ex_b_def)
  have a: "acc_values ex_trainer = None" "acc_values ex_b = None"
    by (simp_all add: ex_trainer_def ex_b_def)
  have g: "map (\<lambda>e. run_grads e ex_trainer) [ex_env, ex_env2]
      = map (\<lambda>e. run_grads e ex_b) [ex_envb, ex_envb2]"
    by (simp add: run_grads_def ex_trainer_def ex_b_def ex_env_def ex_env2_def
        ex_envb_def ex_envb2_def)
  have "trajectory real_arith [ex_env, ex_env2] ex_trainer = [var_values ex_trainer1, var_values ex_trainer2]"
    by (simp add: ex_step1 ex_step2)
  then have t: "trajectory real_arith [ex_env, ex_env2] ex_trainer = [Some [Array [0.98]], Some [Array [0.952]]]"
    by (simp add: ex_trainer1_def ex_trainer2_def)
  from same_gradients_same_trajectory[OF ex_steps12 ex_b_steps _ a g] sn t
  have "trajectory real_arith [ex_envb, ex_envb2] ex_b = [Some [Array [0.98]], Some [Array [0.952]]]"
    by simp
  with ex_steps12 ex_b_steps sn t show ?thesis
    by (simp add: ex_trainer_def ex_b_def)
qed

section \<open>Telemetry\<close>

lemma run_steps_append:
  "run_steps A (es @ [e]) s =
     (case run_steps A es s of Inl x \<Rightarrow> Inl x | Inr t \<Rightarrow> run_step A e t)"
  by (induction es arbitrary: s) (auto split: sum.splits)

lemma run_step_telemetry:
  assumes "run_step A e s = Inr s'"
  shows "step_count s' = step_count s + 1"
    and "monitors s' = (if (step_count s + 1) mod 10 = 0
                     then monitors s @ [(''step_time'', duration e)] else monitors s)"
  using run_step_Inr[OF assms] by auto

lemma telemetry_from:
  assumes "run_steps A es s = Inr s'"
  shows "step_count s' = step_count s + int (length es) \<and>
     monitors s' = monitors s @
       map (\<lambda>k. (''step_time'', duration (es ! (k - 1))))
         (filter (\<lambda>k. (step_count s + int k) mod 10 = 0) [1..<length es + 1])"
  using assms
proof (induction es arbitrary: s' rule: rev_induct)
  case Nil
  then show ?case by simp
next
  case (snoc e es)
  from snoc.prems obtain t where
    t: "run_steps A es s = Inr t" and last: "run_step A e t = Inr s'"
    by (auto simp: run_steps_append split: sum.splits)
  from snoc.IH[OF t] have
    c: "step_count t = step_count s + int (length es)" and
    m: "monitors t = monitors s @
       map (\<lambda>k. (''step_time'', duration (es ! (k - 1))))
         (filter (\<lambda>k. (step_count s + int k) mod 10 = 0) [1..<length es + 1])"
    by simp_all
  have old: "map (\<lambda>k. (''step_time'', duration ((es @ [e]) ! (k - 1))))
         (filter (\<lambda>k. (step_count s + int k) mod 10 = 0) [1..<length es + 1])
     = map (\<lambda>k. (''step_time'', duration (es ! (k - 1))))
         (filter (\<lambda>k. (step_count s + int k) mod 10 = 0) [1..<length es + 1])"
    by (rule map_cong) (auto simp: nth_append)
  have up: "[1..<length (es @ [e]) + 1] = [1..<length es + 1] @ [length es + 1]"
    by simp
  have new: "map (\<lambda>k. (''step_time'', duration ((es @ [e]) ! (k - 1))))
         (filter (\<lambda>k. (step_count s + int k) mod 10 = 0) [length es + 1])
     = (if (step_count t + 1) mod 10 = 0 then [(''step_time'', duration e)] else [])"
    by (simp add: c ac_simps)
  from run_step_telemetry[OF last] c have "step_count s' = step_count s + int (length (es @ [e]))"
    by simp
  moreover have "monitors s' = monitors s @
       map (\<lambda>k. (''step_time'', duration ((es @ [e]) ! (k - 1))))
         (filter (\<lambda>k. (step_count s + int k) mod 10 = 0) [1..<length (es @ [e]) + 1])"
    unfolding up filter_append map_append old new
    using run_step_telemetry(2)[OF last] m by simp
  ultimately show ?case by simp
qed

text \<open>
  Claim C8.  With the counter at zero before the first step, a run of completed steps
  leaves the counter at the number of steps and has put exactly one \<open>step_time\<close> scalar
  for each step number that is a multiple of ten (10, 20, 30, ...), in order, each carrying
  the duration measured in that step, and nothing for any other step.
\<close>

theorem telemetry_every_tenth_step:
  assumes "run_steps A es s = Inr s'" and "step_count s = 0"
  shows "step_count s' = int (length es) \<and>
     monitors s' = monitors s @
       map (\<lambda>k. (''step_time'', duration (es ! (k - 1))))
         (filter (\<lambda>k. k mod 10 = 0) [1..<length es + 1])"
proof -
  have "(\<lambda>k::nat. (0 + int k) mod 10 = 0) = (\<lambda>k. k mod 10 = 0)"
    by (rule ext) presburger
  with telemetry_from[OF assms(1)] assms(2) show ?thesis by simp
qed

lemma ex_envs_run: "\<exists>s'. run_steps real_arith ex_envs ex_trainer = Inr s'"
  by (simp add: ex_envs_def eval_defs ex_env_def ex_trainer_def)

theorem telemetry_every_tenth_step_witness:
  "\<exists>s'. run_steps real_arith ex_envs ex_trainer = Inr s' \<and> step_count ex_trainer = 0 \<and>
     length ex_envs = 12 \<and> step_count s' = 12 \<and> monitors s' = [(''step_time'', 10)]"
proof -
  from ex_envs_run obtain s' where r: "run_steps real_arith ex_envs ex_trainer = Inr s'" ..
  have z: "step_count ex_trainer = 0" "monitors ex_trainer = []"
    by (simp_all add: ex_trainer_def)
  have l: "length ex_envs = 12" by (simp add: ex_envs_def)
  have d: "duration (ex_envs ! 9) = 10" by (simp add: ex_envs_def ex_env_def)
  have u: "[1..<12 + 1] = [1, 2, 3, 4, 5, 6, 7, 8, 9, 10, 11, 12::nat]"
    by (simp add: upt_rec)
  from telemetry_every_tenth_step[OF r z(1)] z l d u
  have "step_count s' = 12 \<and> monitors s' = [(''step_time'', 10)]"
    by simp
  with r z l show ?thesis by blast
qed

section \<open>Creation of the accumulator\<close>

lemma zeros_like_add:
  assumes "\<forall>x. f_add A (f_mul A (f_zero A) m) x = x"
  shows "np_add A (mul_scalar A (zeros_like A g) m) g = Inr g"
proof (cases g)
  case (Scalar x)
  with assms show ?thesis by simp
next
  case (Array xs)
  with assms show ?thesis by (simp add: list_eq_iff_nth_eq)
qed

lemma zeros_like_shape:
  "shape (zeros_like A g) = shape g \<and> list_all (\<lambda>x. x = f_zero A) (elems (zeros_like A g))"
  by (cases g) (simp_all add: list_all_iff)

lemma setup_graph_Inr:
  assumes "setup_graph grads s0 = Inr s"
  shows "acc_values s = None" "var_values s = var_values s0"
    "all_grads s = map fst (hd grads)" "all_vars s = map (map snd) grads" "grads \<noteq> []"
  using assms by (cases grads; auto simp: setup_graph_def Let_def)+

text \<open>
  Claim C5.  Whatever the trainer held before \<open>_setup_graph\<close>, the accumulator is absent
  after it, so lines 169 and 170 of the first step create one zero tensor per received
  gradient, of that gradient's shape; the first completed step therefore leaves the
  accumulator at \<open>0 * 0.9 + g\<close> for every gradient \<open>g\<close> it received, which is the gradient
  itself in an arithmetic where \<open>0 * 0.9 + x = x\<close>.
\<close>

theorem accumulator_zero_at_first_step:
  assumes "setup_graph grads s0 = Inr s"
  shows "acc_values s = None \<and>
     acc_values (init_acc A gv s) = Some (map (zeros_like A) gv) \<and>
     list_all2 (\<lambda>a g. shape a = shape g \<and> list_all (\<lambda>x. x = f_zero A) (elems a))
       (map (zeros_like A) gv) gv \<and>
     (var_values s0 = None \<longrightarrow> run_step A e s = Inr s' \<longrightarrow>
        (\<exists>accs'. acc_values s' = Some accs' \<and>
           list_all2 (\<lambda>a g. np_add A (mul_scalar A (zeros_like A g) 0.9) g = Inr a)
             accs' (run_grads e s))) \<and>
     (var_values s0 = None \<longrightarrow> run_step A e s = Inr s' \<longrightarrow>
        (\<forall>x. f_add A (f_mul A (f_zero A) 0.9) x = x) \<longrightarrow>
        acc_values s' = Some (run_grads e s))"
proof -
  note su = setup_graph_Inr[OF assms]
  have 1: "acc_values (init_acc A gv s) = Some (map (zeros_like A) gv)" for gv
    by (simp add: init_acc_simps acc_before_def su(1))
  have 2: "list_all2 (\<lambda>a g. shape a = shape g \<and> list_all (\<lambda>x. x = f_zero A) (elems a))
       (map (zeros_like A) gv) gv"
    by (simp add: list_all2_conv_all_nth zeros_like_shape)
  have 3: "\<exists>accs'. acc_values s' = Some accs' \<and>
           list_all2 (\<lambda>a g. np_add A (mul_scalar A (zeros_like A g) 0.9) g = Inr a)
             accs' (run_grads e s)"
    if none: "var_values s0 = None" and step: "run_step A e s = Inr s'"
  proof -
    let ?gv = "run_grads e s"
    have ab: "acc_before A ?gv s = map (zeros_like A) ?gv"
      by (simp add: acc_before_def su(1))
    from su(5) obtain g0 rest where g: "grads = g0 # rest" by (cases grads) auto
    have n: "length (snapshot s) = length ?gv"
      using none by (simp add: snapshot_def su g run_grads_def)
    from run_step_Inr[OF step] ab obtain vs' accs' where
      ul: "update_loop A lr momentum ?gv [0..<length (snapshot s)]
        (snapshot s) (map (zeros_like A) ?gv) = Inr (vs', accs')"
      and f: "acc_values s' = Some accs'"
      by auto
    from update_loop_Inr[OF ul] have len: "length accs' = length ?gv"
      and el: "\<And>i. i < length ?gv \<Longrightarrow>
        np_add A (mul_scalar A (map (zeros_like A) ?gv ! i) momentum) (?gv ! i) = Inr (accs' ! i)"
      using n by auto
    have "np_add A (mul_scalar A (zeros_like A (?gv ! i)) 0.9) (?gv ! i) = Inr (accs' ! i)"
      if "i < length ?gv" for i
      using el[OF that] that by (simp add: momentum_def)
    with len have "list_all2 (\<lambda>a g. np_add A (mul_scalar A (zeros_like A g) 0.9) g = Inr a)
             accs' ?gv"
      by (simp add: list_all2_conv_all_nth)
    with f show ?thesis by blast
  qed
  have 4: "acc_values s' = Some (run_grads e s)"
    if none: "var_values s0 = None" and step: "run_step A e s = Inr s'"
      and law: "\<forall>x. f_add A (f_mul A (f_zero A) 0.9) x = x"
  proof -
    from 3[OF none step] obtain accs' where f: "acc_values s' = Some accs'"
      and l: "list_all2 (\<lambda>a g. np_add A (mul_scalar A (zeros_like A g) 0.9) g = Inr a)
             accs' (run_grads e s)"
      by blast
    from l have "list_all2 (\<lambda>a g. a = g) accs' (run_grads e s)"
      by (rule list_all2_mono) (simp add: zeros_like_add[OF law])
    then have "accs' = run_grads e s" by (simp add: list_all2_eq)
    with f show ?thesis by simp
  qed
  from su(1) 1 2 3 4 show ?thesis by blast
qed

theorem accumulator_zero_at_first_step_witness:
  "setup_graph ex_grads (initial (\<lambda>v. Array [1])) = Inr ex_trainer \<and>
   acc_values (init_acc real_arith [Array [2, 4], Scalar 6] ex_trainer)
     = Some [Array [0, 0], Scalar 0] \<and>
   var_values (initial (\<lambda>v. Array [1::real])) = None \<and>
   run_step real_arith ex_env ex_trainer = Inr ex_trainer1 \<and>
   run_grads ex_env ex_trainer = [Array [2]] \<and> acc_values ex_trainer1 = Some [Array [2]]"
proof -
  have a: "setup_graph ex_grads (initial (\<lambda>v. Array [1])) = Inr ex_trainer"
    by (simp add: setup_graph_def ex_grads_def initial_def ex_trainer_def)
  have n: "var_values (initial (\<lambda>v. Array [1::real])) = None" by (simp add: initial_def)
  have g: "run_grads ex_env ex_trainer = [Array [2]]"
    by (simp add: run_grads_def ex_env_def ex_trainer_def)
  have law: "\<forall>x. f_add real_arith (f_mul real_arith (f_zero real_arith) 0.9) x = x"
    by (simp add: real_arith_def)
  from accumulator_zero_at_first_step[OF a, of real_arith "[Array [2, 4], Scalar 6]" ex_env ex_trainer1]
    n ex_step1 g law
  have "acc_values (init_acc real_arith [Array [2, 4], Scalar 6] ex_trainer)
       = Some [Array [0, 0], Scalar 0] \<and>
      acc_values ex_trainer1 = Some [Array [2]]"
    by (simp add: real_arith_def)
  with a n ex_step1 g show ?thesis by simp
qed

section \<open>A model without trainable parameters\<close>

lemma empty_step:
  assumes "all_grads s = []" and "list_all (\<lambda>r. r = []) (all_vars s)" and "all_vars s \<noteq> []"
    and "var_values s = None \<or> var_values s = Some []"
    and "falsy (acc_values s)"
    and "run_raises e = None" and "sink_raises e = None"
  shows "\<exists>s'. run_step A e s = Inr s' \<and>
      var_values s' = Some [] \<and> acc_values s' = Some [] \<and> acc_obj s' = acc_obj s + 1 \<and>
      store s' = store s \<and> all_vars s' = all_vars s \<and> all_grads s' = all_grads s"
proof -
  from assms(3) obtain r rs where av: "all_vars s = r # rs" by (cases "all_vars s") auto
  with assms(2) have r: "r = []" by simp
  have sr: "set_replicas [] rs' st = Inr st" for rs' and st :: "var \<Rightarrow> 'a tensor"
    by (induction rs') simp_all
  from assms(4) show ?thesis
  proof
    assume "var_values s = None"
    with assms(1,5,6,7) av r sr show ?thesis
      by (simp add: run_step_def get_values_def hooked_run_def run_grads_def put_scalar_def
          apply_update_def init_acc_def set_values_def Let_def split: option.splits)
  next
    assume "var_values s = Some []"
    with assms(1,5,6,7) av r sr show ?thesis
      by (simp add: run_step_def get_values_def hooked_run_def run_grads_def put_scalar_def
          apply_update_def init_acc_def set_values_def Let_def split: option.splits)
  qed
qed

lemma kept_accumulator:
  assumes "run_step A e s = Inr s'" and "acc_values s = Some (a # as)"
  shows "acc_obj s' = acc_obj s"
  using run_step_Inr[OF assms(1)] assms(2) by (auto simp: falsy_def)

text \<open>
  Claim C10.  With no trainable parameter (no gradient tensor, replicas without
  variables) and the accumulator absent or empty, every step of a run whose collaborators
  do not raise completes and builds the accumulator list anew, as the empty list: after
  \<open>n\<close> steps \<open>n\<close> further lists have been built, the accumulator is again one the check of
  line 169 takes for a missing one, and no variable has changed.  A non-empty accumulator,
  by contrast, is the same list object after a step as before it.
\<close>

theorem empty_parameter_set_recreates_accumulator:
  assumes "all_grads s = []" and "list_all (\<lambda>r. r = []) (all_vars s)" and "all_vars s \<noteq> []"
    and "var_values s = None \<or> var_values s = Some []"
    and "falsy (acc_values s)"
    and "list_all (\<lambda>e. run_raises e = None \<and> sink_raises e = None) es"
  shows "(\<exists>s'. run_steps A es s = Inr s' \<and> acc_obj s' = acc_obj s + length es \<and>
        falsy (acc_values s') \<and> snapshot s' = [] \<and> store s' = store s \<and>
        (es \<noteq> [] \<longrightarrow> var_values s' = Some [] \<and> acc_values s' = Some [])) \<and>
     (run_step A e t = Inr t' \<longrightarrow> acc_values t = Some (a # as) \<longrightarrow> acc_obj t' = acc_obj t)"
proof
  show "\<exists>s'. run_steps A es s = Inr s' \<and> acc_obj s' = acc_obj s + length es \<and>
        falsy (acc_values s') \<and> snapshot s' = [] \<and> store s' = store s \<and>
        (es \<noteq> [] \<longrightarrow> var_values s' = Some [] \<and> acc_values s' = Some [])"
    using assms
  proof (induction es arbitrary: s)
    case Nil
    from Nil.prems(3) obtain r rs where av: "all_vars s = r # rs" by (cases "all_vars s") auto
    with Nil.prems(2) have "r = []" by simp
    with av Nil.prems(4) have "snapshot s = []" by (auto simp: snapshot_def)
    with Nil.prems(5) show ?case by simp
  next
    case (Cons e1 es)
    from Cons.prems(6) have ok: "run_raises e1 = None" "sink_raises e1 = None"
      and rest: "list_all (\<lambda>e. run_raises e = None \<and> sink_raises e = None) es"
      by simp_all
    from empty_step[OF Cons.prems(1-5) ok, of A] obtain s1 where
      s1: "run_step A e1 s = Inr s1" and f: "var_values s1 = Some []" "acc_values s1 = Some []"
        "acc_obj s1 = acc_obj s + 1" "store s1 = store s" "all_vars s1 = all_vars s"
        "all_grads s1 = all_grads s"
      by blast
    have h: "all_grads s1 = []" "list_all (\<lambda>r. r = []) (all_vars s1)" "all_vars s1 \<noteq> []"
      "var_values s1 = None \<or> var_values s1 = Some []" "falsy (acc_values s1)"
      using f Cons.prems(1-3) by (simp_all add: falsy_def)
    from Cons.IH[OF h rest] obtain s' where
      r: "run_steps A es s1 = Inr s'" "acc_obj s' = acc_obj s1 + length es"
        "falsy (acc_values s')" "snapshot s' = []" "store s' = store s1"
        "es \<noteq> [] \<longrightarrow> var_values s' = Some [] \<and> acc_values s' = Some []"
      by blast
    have "var_values s' = Some [] \<and> acc_values s' = Some []"
    proof (cases "es = []")
      case True
      with r(1) f show ?thesis by simp
    next
      case False
      with r(6) show ?thesis by simp
    qed
    with s1 r f show ?case by simp
  qed
next
  show "run_step A e t = Inr t' \<longrightarrow> acc_values t = Some (a # as) \<longrightarrow> acc_obj t' = acc_obj t"
    using kept_accumulator by blast
qed

theorem empty_parameter_set_recreates_accumulator_witness:
  "all_grads ex_empty = [] \<and> all_vars ex_empty = [[], []] \<and> var_values ex_empty = Some [] \<and>
   acc_values ex_empty = Some [] \<and> falsy (acc_values ex_empty) \<and> acc_obj ex_empty = 4 \<and>
   run_steps real_arith [ex_env, ex_env2] ex_empty = Inr (ex_empty\<lparr>acc_obj := 6, step_count := 6\<rparr>) \<and>
   run_step real_arith ex_env2 ex_trainer1 = Inr ex_trainer2 \<and>
   acc_values ex_trainer1 = Some [Array [2]] \<and> acc_obj ex_trainer1 = 1 \<and> acc_obj ex_trainer2 = 1"
proof -
  have h: "all_grads ex_empty = []" "list_all (\<lambda>r. r = []) (all_vars ex_empty)"
    "all_vars ex_empty \<noteq> []" "var_values ex_empty = None \<or> var_values ex_empty = Some []"
    "falsy (acc_values ex_empty)"
    "list_all (\<lambda>e. run_raises e = None \<and> sink_raises e = None) [ex_env, ex_env2]"
    by (simp_all add: ex_empty_def ex_env_def ex_env2_def falsy_def)
  have r: "run_steps real_arith [ex_env, ex_env2] ex_empty
      = Inr (ex_empty\<lparr>acc_obj := 6, step_count := 6\<rparr>)"
    by (simp add: eval_defs ex_empty_def ex_env_def ex_env2_def)
  have k: "acc_values ex_trainer1 = Some [Array [2]]" by (simp add: ex_trainer1_def)
  from empty_parameter_set_recreates_accumulator[OF h,
      of real_arith ex_env2 ex_trainer1 ex_trainer2 "Array [2]" "[]"] r ex_step2 k
  have "acc_obj (ex_empty\<lparr>acc_obj := 6, step_count := 6\<rparr>) = acc_obj ex_empty + 2 \<and>
      acc_obj ex_trainer2 = acc_obj ex_trainer1"
    by simp
  with h r ex_step2 k show ?thesis
    by (simp add: ex_empty_def ex_trainer1_def)
qed

section \<open>A raising telemetry sink\<close>

text \<open>
  Claim C9, as stated, fails: on a step whose count is a multiple of ten, an exception of
  \<open>put_scalar\<close> leaves \<open>run_step\<close> through no handler; the accumulator is not updated and
  nothing is broadcast.
\<close>

theorem sink_failure_counterexample:
  "sink_raises ex_env_sink = Some SinkError \<and>
   run_step real_arith ex_env_sink ex_trainer9
     = Inl (SinkError, ex_trainer9\<lparr>step_count := 10\<rparr>)"
  by (simp add: eval_defs ex_env_sink_def ex_trainer9_def)

text \<open>
  Claim C9, amended.  When \<open>put_scalar\<close> raises on a step that emits the metric (the
  incremented counter is a multiple of ten, the snapshot could be read and the gradients
  were computed), \<open>run_step\<close> raises the same exception: the counter is incremented and
  the snapshot read, but the accumulator, the telemetry log and every replica's variables
  are as before the step.  On a step that does not emit, the outcome does not depend on
  the sink.
\<close>

theorem sink_failure_aborts_step:
  "(sink_raises e = Some x \<and> run_raises e = None \<and> (step_count s + 1) mod 10 = 0 \<and>
      (var_values s \<noteq> None \<or> all_vars s \<noteq> []) \<longrightarrow>
      run_step A e s = Inl (x, s\<lparr>step_count := step_count s + 1, var_values := Some (snapshot s)\<rparr>)) \<and>
   ((step_count s + 1) mod 10 \<noteq> 0 \<longrightarrow> run_step A (e\<lparr>sink_raises := y\<rparr>) s = run_step A e s)"
proof (intro conjI impI)
  assume a: "sink_raises e = Some x \<and> run_raises e = None \<and> (step_count s + 1) mod 10 = 0 \<and>
      (var_values s \<noteq> None \<or> all_vars s \<noteq> [])"
  show "run_step A e s = Inl (x, s\<lparr>step_count := step_count s + 1, var_values := Some (snapshot s)\<rparr>)"
  proof (cases "var_values s")
    case None
    with a obtain r rs where "all_vars s = r # rs" by (cases "all_vars s") auto
    with a None show ?thesis
      by (simp add: run_step_def get_values_def hooked_run_def put_scalar_def snapshot_def Let_def)
  next
    case (Some vs)
    with a show ?thesis
      by (simp add: run_step_def hooked_run_def put_scalar_def snapshot_def Let_def)
  qed
next
  assume "(step_count s + 1) mod 10 \<noteq> 0"
  then show "run_step A (e\<lparr>sink_raises := y\<rparr>) s = run_step A e s"
    by (auto simp: run_step_def Let_def hooked_run_def run_grads_def get_values_def
        split: sum.splits list.splits option.splits)
qed

theorem sink_failure_aborts_step_witness:
  "sink_raises ex_env_sink = Some SinkError \<and> run_raises ex_env_sink = None \<and>
   (step_count ex_trainer9 + 1) mod 10 = 0 \<and> var_values ex_trainer9 = Some [Array [0.98]] \<and>
   run_step real_arith ex_env_sink ex_trainer9
     = Inl (SinkError, ex_trainer9\<lparr>step_count := 10\<rparr>) \<and>
   (step_count ex_trainer1 + 1) mod 10 = 2 \<and>
   run_step real_arith (ex_env2\<lparr>sink_raises := Some SinkError\<rparr>) ex_trainer1 = Inr ex_trainer2"
proof -
  have h: "sink_raises ex_env_sink = Some SinkError" "run_raises ex_env_sink = None"
    "(step_count ex_trainer9 + 1) mod 10 = 0" "var_values ex_trainer9 = Some [Array [0.98]]"
    by (simp_all add: ex_env_sink_def ex_trainer9_def)
  have k: "(step_count ex_trainer1 + 1) mod 10 = 2" by (simp add: ex_trainer1_def)
  from sink_failure_aborts_step[of ex_env_sink SinkError ex_trainer9 real_arith] h
  have 1: "run_step real_arith ex_env_sink ex_trainer9
      = Inl (SinkError, ex_trainer9\<lparr>step_count := 10\<rparr>)"
    by (simp add: snapshot_def ex_trainer9_def)
  from sink_failure_aborts_step[of ex_env2 x ex_trainer1 real_arith "Some SinkError"] k ex_step2
  have 2: "run_step real_arith (ex_env2\<lparr>sink_raises := Some SinkError\<rparr>) ex_trainer1
      = Inr ex_trainer2"
    by simp
  from h k 1 2 show ?thesis by simp
qed

section \<open>The lengths of the lists\<close>





end
